theory Spec2Isabelle
  imports Complex_Main "HOL-Library.AList" "HOL-Library.Sublist"
begin

chapter \<open>The program\<close>

section \<open>Dynamic-segment path rewrite\<close>

text \<open>
  The code-generation route handler normalises every API route path with
  \<^verbatim>\<open>sanitizeRoutePath\<close>:
  \<^verbatim>\<open>return path.replace(/\{(\w+)\}/g, '[$1]');\<close>
  A path is a \<open>string\<close>. The class \<^verbatim>\<open>\w\<close> of a regular expression without the unicode
  and ignore-case flags is the 63 ASCII characters: letters, digits and the underscore.
\<close>

definition word_char :: "char \<Rightarrow> bool" where
  "word_char c = (c \<in> set (''abcdefghijklmnopqrstuvwxyz'' @ ''ABCDEFGHIJKLMNOPQRSTUVWXYZ'' @ ''0123456789_''))"

text \<open>
  One attempt of the pattern \<^verbatim>\<open>\{(\w+)\}\<close> at the start of a string: an opening brace,
  the longest run of word characters (the greedy \<^verbatim>\<open>\w+\<close>; giving characters back never
  helps, since the character after a shorter run is a word character and not the closing
  brace), which must not be empty, and a closing brace. The result is the captured name
  and the text after the match.
\<close>

definition match_param :: "string \<Rightarrow> (string \<times> string) option" where
  "match_param s =
     (case s of
        [] \<Rightarrow> None
      | c # cs \<Rightarrow>
          if c = CHR ''{'' then
            (case dropWhile word_char cs of
               [] \<Rightarrow> None
             | d # rest \<Rightarrow>
                 if takeWhile word_char cs \<noteq> [] \<and> d = CHR ''}''
                 then Some (takeWhile word_char cs, rest) else None)
          else None)"

lemma match_param_length: "match_param s = Some (w, rest) \<Longrightarrow> length rest < length s"
proof -
  assume a: "match_param s = Some (w, rest)"
  then obtain cs d where s: "s = CHR ''{'' # cs" and d: "dropWhile word_char cs = d # rest"
    by (auto simp: match_param_def split: list.splits if_splits)
  have "length (dropWhile word_char cs) \<le> length cs" by (rule length_dropWhile_le)
  with s d show ?thesis by simp
qed

text \<open>
  The global replace scans from the left: where the pattern matches, the match is replaced
  by the name in brackets and the scan goes on after the match; where it does not, the
  character is kept and the scan moves one character on.
\<close>

function sanitizeRoutePath :: "string \<Rightarrow> string" where
  "sanitizeRoutePath [] = []"
| "sanitizeRoutePath (c # cs) =
     (case match_param (c # cs) of
        Some (w, rest) \<Rightarrow> CHR ''['' # w @ CHR '']'' # sanitizeRoutePath rest
      | None \<Rightarrow> c # sanitizeRoutePath cs)"
  by pat_completeness auto
termination
  by (relation "measure length") (auto dest: match_param_length)

section \<open>JSON values and the generated-code schema\<close>

text \<open>
  The handler receives JSON twice: the request body and the content of the model's reply.
  A JSON object is the list of its members in enumeration order. The payload of a number
  plays no role in any check below.
\<close>

datatype json =
    JNull
  | JBool bool
  | JNumber rat
  | JString string
  | JArray "json list"
  | JObject "(string \<times> json) list"

text \<open>
  What the handler's \<^verbatim>\<open>try\<close> block can throw: a schema mismatch, a property access on
  \<^verbatim>\<open>undefined\<close> or a call of something that is no function, a JSON text that does not parse,
  and \<^verbatim>\<open>new Error(message)\<close>.
\<close>

datatype error = ZodError | TypeError | SyntaxError | Error string

text \<open>
  The type \<^verbatim>\<open>Spec\<close> that \<^verbatim>\<open>SpecSchema\<close> produces; a \<^verbatim>\<open>z.record\<close> is the list of its entries.
\<close>

record Spec =
  name :: string
  description :: string
  frontend :: "string list"
  api :: "(string \<times> (string \<times> string) list) list"
  dataModel :: "(string \<times> (string \<times> string) list) list"
  features :: "string list"

text \<open>
  The interfaces \<^verbatim>\<open>GeneratedComponent\<close>, \<^verbatim>\<open>GeneratedApiRoute\<close> and \<^verbatim>\<open>GeneratedCode\<close>. The
  method map of a route is the list of its entries in the order of \<^verbatim>\<open>Object.entries\<close>.
\<close>

record ApiMethod =
  code :: string
  description :: string

record GeneratedApiRoute =
  path :: string
  methods :: "(string \<times> ApiMethod) list"

record GeneratedComponent =
  name :: string
  code :: string
  description :: string
  dependencies :: "string list"

record GeneratedCode =
  components :: "GeneratedComponent list"
  apiRoutes :: "GeneratedApiRoute list"
  types :: string
  utils :: "string list"

text \<open>
  The schema combinators: \<^verbatim>\<open>z.string()\<close> accepts a string only; \<^verbatim>\<open>z.array(item)\<close> an array
  whose elements all pass; \<^verbatim>\<open>z.record(val)\<close> an object whose values all pass; a key of a
  \<^verbatim>\<open>z.object\<close> that is absent reads as \<^verbatim>\<open>undefined\<close>, which none of the schemas used here
  accepts.
\<close>

definition z_string :: "json \<Rightarrow> error + string" where
  "z_string j = (case j of JString s \<Rightarrow> Inr s | _ \<Rightarrow> Inl ZodError)"

primrec parse_each :: "('a \<Rightarrow> error + 'b) \<Rightarrow> 'a list \<Rightarrow> error + 'b list" where
  "parse_each f [] = Inr []"
| "parse_each f (x # xs) =
     (case f x of
        Inl e \<Rightarrow> Inl e
      | Inr y \<Rightarrow> (case parse_each f xs of Inl e \<Rightarrow> Inl e | Inr ys \<Rightarrow> Inr (y # ys)))"

definition z_array :: "(json \<Rightarrow> error + 'a) \<Rightarrow> json \<Rightarrow> error + 'a list" where
  "z_array item j = (case j of JArray js \<Rightarrow> parse_each item js | _ \<Rightarrow> Inl ZodError)"

definition z_record :: "(json \<Rightarrow> error + 'a) \<Rightarrow> json \<Rightarrow> error + (string \<times> 'a) list" where
  "z_record val j =
     (case j of
        JObject kvs \<Rightarrow>
          parse_each (\<lambda>(k, v). case val v of Inl e \<Rightarrow> Inl e | Inr x \<Rightarrow> Inr (k, x)) kvs
      | _ \<Rightarrow> Inl ZodError)"

definition z_field :: "(string \<times> json) list \<Rightarrow> string \<Rightarrow> (json \<Rightarrow> error + 'a) \<Rightarrow> error + 'a" where
  "z_field obj k schema = (case map_of obj k of None \<Rightarrow> Inl ZodError | Some v \<Rightarrow> schema v)"


definition ApiMethodSchema :: "json \<Rightarrow> error + ApiMethod" where
  "ApiMethodSchema j =
     (case j of
        JObject obj \<Rightarrow>
          (case z_field obj ''code'' z_string of Inl e \<Rightarrow> Inl e | Inr c \<Rightarrow>
           case z_field obj ''description'' z_string of Inl e \<Rightarrow> Inl e | Inr d \<Rightarrow>
           Inr \<lparr>ApiMethod.code = c, ApiMethod.description = d\<rparr>)
      | _ \<Rightarrow> Inl ZodError)"

definition ApiRouteSchema :: "json \<Rightarrow> error + GeneratedApiRoute" where
  "ApiRouteSchema j =
     (case j of
        JObject obj \<Rightarrow>
          (case z_field obj ''path'' z_string of Inl e \<Rightarrow> Inl e | Inr p \<Rightarrow>
           case z_field obj ''methods'' (z_record ApiMethodSchema) of Inl e \<Rightarrow> Inl e | Inr ms \<Rightarrow>
           Inr \<lparr>path = p, methods = ms\<rparr>)
      | _ \<Rightarrow> Inl ZodError)"

definition ComponentSchema :: "json \<Rightarrow> error + GeneratedComponent" where
  "ComponentSchema j =
     (case j of
        JObject obj \<Rightarrow>
          (case z_field obj ''name'' z_string of Inl e \<Rightarrow> Inl e | Inr n \<Rightarrow>
           case z_field obj ''code'' z_string of Inl e \<Rightarrow> Inl e | Inr c \<Rightarrow>
           case z_field obj ''description'' z_string of Inl e \<Rightarrow> Inl e | Inr d \<Rightarrow>
           case z_field obj ''dependencies'' (z_array z_string) of Inl e \<Rightarrow> Inl e | Inr ds \<Rightarrow>
           Inr \<lparr>name = n, GeneratedComponent.code = c, GeneratedComponent.description = d,
                dependencies = ds\<rparr>)
      | _ \<Rightarrow> Inl ZodError)"

definition GeneratedCodeSchema :: "json \<Rightarrow> error + GeneratedCode" where
  "GeneratedCodeSchema j =
     (case j of
        JObject obj \<Rightarrow>
          (case z_field obj ''components'' (z_array ComponentSchema) of Inl e \<Rightarrow> Inl e | Inr cs \<Rightarrow>
           case z_field obj ''apiRoutes'' (z_array ApiRouteSchema) of Inl e \<Rightarrow> Inl e | Inr rs \<Rightarrow>
           case z_field obj ''types'' z_string of Inl e \<Rightarrow> Inl e | Inr ts \<Rightarrow>
           case z_field obj ''utils'' (z_array z_string) of Inl e \<Rightarrow> Inl e | Inr us \<Rightarrow>
           Inr \<lparr>components = cs, apiRoutes = rs, types = ts, utils = us\<rparr>)
      | _ \<Rightarrow> Inl ZodError)"

section \<open>Strings and serialisation\<close>

text \<open>
  The string operations of the runtime that the handler calls. Strings are lists of 8-bit
  characters; \<^verbatim>\<open>toLowerCase\<close> and the class \<^verbatim>\<open>\s\<close> are modelled on ASCII.
  \<^verbatim>\<open>replace(pattern, replacement)\<close> with a string pattern replaces the first occurrence;
  \<^verbatim>\<open>split\<close> always returns at least one part.
\<close>

fun replace_first :: "string \<Rightarrow> string \<Rightarrow> string \<Rightarrow> string" where
  "replace_first pat rep [] = (if pat = [] then rep else [])"
| "replace_first pat rep (c # cs) =
     (if take (length pat) (c # cs) = pat then rep @ drop (length pat) (c # cs)
      else c # replace_first pat rep cs)"

fun js_split :: "char \<Rightarrow> string \<Rightarrow> string list" where
  "js_split sep [] = [[]]"
| "js_split sep (c # cs) =
     (if c = sep then [] # js_split sep cs
      else (case js_split sep cs of [] \<Rightarrow> [[c]] | p # ps \<Rightarrow> (c # p) # ps))"

fun join :: "string \<Rightarrow> string list \<Rightarrow> string" where
  "join sep [] = []"
| "join sep [x] = x"
| "join sep (x # y # ys) = x @ sep @ join sep (y # ys)"

fun digits :: "nat \<Rightarrow> string" where
  "digits n =
     (if n < 10 then [''0123456789'' ! n]
      else digits (n div 10) @ [''0123456789'' ! (n mod 10)])"

declare digits.simps [simp del]

definition toLowerCase :: "string \<Rightarrow> string" where
  "toLowerCase s =
     map (\<lambda>c. if c \<in> set ''ABCDEFGHIJKLMNOPQRSTUVWXYZ'' then char_of (of_char c + (32::nat)) else c) s"

definition white_space :: "char \<Rightarrow> bool" where
  "white_space c = (c \<in> {CHR 0x09, CHR 0x0A, CHR 0x0B, CHR 0x0C, CHR 0x0D, CHR 0x20})"

function replace_white_space :: "string \<Rightarrow> string" where
  "replace_white_space [] = []"
| "replace_white_space (c # cs) =
     (if white_space c then CHR ''-'' # replace_white_space (dropWhile white_space cs)
      else c # replace_white_space cs)"
  by pat_completeness auto
termination
  by (relation "measure length") (auto simp: less_Suc_eq_le length_dropWhile_le)

text \<open>
  \<^verbatim>\<open>JSON.stringify(value, null, 2)\<close> for values built from strings and objects, which is all
  the handler serialises (the \<^verbatim>\<open>package.json\<close> object).
\<close>

definition hex_digit :: "nat \<Rightarrow> char" where
  "hex_digit n = ''0123456789abcdef'' ! (n mod 16)"

definition escape_char :: "char \<Rightarrow> string" where
  "escape_char c =
     (if c = CHR 0x22 then [CHR 0x5C, CHR 0x22]
      else if c = CHR 0x5C then [CHR 0x5C, CHR 0x5C]
      else if c = CHR 0x08 then [CHR 0x5C, CHR ''b'']
      else if c = CHR 0x0C then [CHR 0x5C, CHR ''f'']
      else if c = CHR 0x0A then [CHR 0x5C, CHR ''n'']
      else if c = CHR 0x0D then [CHR 0x5C, CHR ''r'']
      else if c = CHR 0x09 then [CHR 0x5C, CHR ''t'']
      else if (of_char c :: nat) < 32
        then [CHR 0x5C, CHR ''u'', CHR ''0'', CHR ''0'', hex_digit (of_char c div 16), hex_digit (of_char c)]
      else [c])"

definition quote :: "string \<Rightarrow> string" where
  "quote s = CHR 0x22 # concat (map escape_char s) @ [CHR 0x22]"

datatype literal = Str string | Obj "(string \<times> literal) list"

primrec stringify :: "literal \<Rightarrow> nat \<Rightarrow> string" where
  "stringify (Str s) = (\<lambda>indent. quote s)"
| "stringify (Obj members) = (\<lambda>indent.
     if members = [] then ''{}''
     else ''{\<newline>''
       @ join '',\<newline>''
           (map (\<lambda>(k, v). replicate (indent + 2) CHR '' '' @ quote k @ '': '' @ v (indent + 2))
              (map (map_prod id stringify) members))
       @ ''\<newline>'' @ replicate indent CHR '' '' @ ''}'')"

section \<open>File-tree assembly\<close>

text \<open>
  \<^verbatim>\<open>interface FileStructure { [key: string]: { file?: { contents: string }; directory?: FileStructure } }\<close>
  The handler only ever builds entries with exactly one of the two fields. An object is
  the association list of its own properties in creation order; an assignment to an
  existing key replaces the value in place (\<open>AList.update\<close>). Two behaviours of JavaScript
  objects are outside this model: keys that are canonical array indices are enumerated
  before all other keys, and a property read also finds the names inherited from
  \<^verbatim>\<open>Object.prototype\<close>.
\<close>

datatype entry = File string | Directory "(string \<times> entry) list"

type_synonym FileStructure = "(string \<times> entry) list"

text \<open>
  One exported handler per entry of the method map, and the content of \<^verbatim>\<open>route.ts\<close>.
\<close>

definition handler :: "string \<times> ApiMethod \<Rightarrow> string" where
  "handler = (\<lambda>(method, m).
     ''\<newline>export async function '' @ method @ ''(request: Request) {\<newline>''
       @ ApiMethod.code m @ ''\<newline>}'')"

definition routePath :: "GeneratedApiRoute \<Rightarrow> string" where
  "routePath route = sanitizeRoutePath (replace_first ''/api/'' [] (path route))"

definition routeMethods :: "GeneratedApiRoute \<Rightarrow> string" where
  "routeMethods route = join ''\<newline>\<newline>'' (map handler (methods route))"

definition route_ts :: "GeneratedApiRoute \<Rightarrow> string" where
  "route_ts route =
     ''\<newline>import { NextResponse } from 'next/server';\<newline>'' @ routeMethods route @ ''\<newline>''"

definition pathParts :: "GeneratedApiRoute \<Rightarrow> string list" where
  "pathParts route = js_split CHR ''/'' (routePath route)"

text \<open>
  The \<^verbatim>\<open>forEach\<close> over the path parts, walking \<^verbatim>\<open>currentPath\<close> down the tree: the last part
  is assigned a directory holding \<^verbatim>\<open>route.ts\<close>, whatever was there; an intermediate part is
  created as an empty directory when absent, and entered. Entering a file entry makes
  \<^verbatim>\<open>currentPath\<close> undefined, and the next part (there always is one) throws a TypeError.
\<close>

fun place_route :: "string list \<Rightarrow> string \<Rightarrow> FileStructure \<Rightarrow> error + FileStructure" where
  "place_route [] contents currentPath = Inr currentPath"
| "place_route [part] contents currentPath =
     Inr (AList.update part (Directory [(''route.ts'', File contents)]) currentPath)"
| "place_route (part # rest) contents currentPath =
     (case map_of currentPath part of
        None \<Rightarrow>
          (case place_route rest contents [] of
             Inl e \<Rightarrow> Inl e
           | Inr d \<Rightarrow> Inr (AList.update part (Directory d) currentPath))
      | Some (Directory d0) \<Rightarrow>
          (case place_route rest contents d0 of
             Inl e \<Rightarrow> Inl e
           | Inr d \<Rightarrow> Inr (AList.update part (Directory d) currentPath))
      | Some (File c) \<Rightarrow> Inl TypeError)"

definition add_route :: "FileStructure \<Rightarrow> GeneratedApiRoute \<Rightarrow> error + FileStructure" where
  "add_route acc route =
     (if routeMethods route \<noteq> []
      then place_route (pathParts route) (route_ts route) acc
      else Inr acc)"

fun reduce_routes :: "FileStructure \<Rightarrow> GeneratedApiRoute list \<Rightarrow> error + FileStructure" where
  "reduce_routes acc [] = Inr acc"
| "reduce_routes acc (route # routes) =
     (case add_route acc route of Inl e \<Rightarrow> Inl e | Inr acc' \<Rightarrow> reduce_routes acc' routes)"

definition utils_directory :: "string list \<Rightarrow> FileStructure" where
  "utils_directory us =
     fold (\<lambda>(index, util) acc. AList.update (''util'' @ digits (index + 1) @ ''.ts'') (File util) acc)
       (enumerate 0 us) []"

definition components_directory :: "GeneratedComponent list \<Rightarrow> FileStructure" where
  "components_directory cs =
     fold (\<lambda>component acc. AList.update (name component @ ''.tsx'') (File (GeneratedComponent.code component)) acc)
       cs []"

definition package_json :: "string \<Rightarrow> string" where
  "package_json spec_name =
     stringify (Obj
       [(''name'', Str (replace_white_space (toLowerCase spec_name))),
        (''type'', Str ''module''),
        (''scripts'', Obj
          [(''dev'', Str ''next dev''),
           (''build'', Str ''next build''),
           (''start'', Str ''next start'')]),
        (''dependencies'', Obj
          [(''next'', Str ''^14.0.0''),
           (''react'', Str ''^18.2.0''),
           (''react-dom'', Str ''^18.2.0''),
           (''@types/react'', Str ''^18.2.0''),
           (''@types/react-dom'', Str ''^18.2.0''),
           (''typescript'', Str ''^5.0.0''),
           (''zod'', Str ''^3.22.0'')])]) 0"

definition page_tsx :: "GeneratedComponent list \<Rightarrow> string \<Rightarrow> string" where
  "page_tsx cs spec_name =
     ''\<newline>import { '' @ join '', '' (map name cs) @ '' } from '@/components';\<newline>''
     @ ''\<newline>''
     @ ''export default function Home() {\<newline>''
     @ ''  return (\<newline>''
     @ ''    <main className='' @ [CHR 0x22] @ ''min-h-screen p-8'' @ [CHR 0x22] @ ''>\<newline>''
     @ ''      <h1 className='' @ [CHR 0x22] @ ''text-3xl font-bold mb-8'' @ [CHR 0x22] @ ''>'' @ spec_name @ ''</h1>\<newline>''
     @ ''      '' @ join ''\<newline>      '' (map (\<lambda>c. ''<'' @ name c @ '' />'') cs) @ ''\<newline>''
     @ ''    </main>\<newline>''
     @ ''  );\<newline>''
     @ ''}''"

text \<open>
  \<^verbatim>\<open>spec\<close> is whatever the request body holds under that key (\<open>None\<close> is \<^verbatim>\<open>undefined\<close>).
  \<^verbatim>\<open>spec.name.toLowerCase()\<close> throws unless \<^verbatim>\<open>spec\<close> is an object whose \<^verbatim>\<open>name\<close> is a string.
\<close>

definition spec_name :: "json option \<Rightarrow> error + string" where
  "spec_name spec =
     (case spec of
        Some (JObject obj) \<Rightarrow>
          (case map_of obj ''name'' of Some (JString s) \<Rightarrow> Inr s | _ \<Rightarrow> Inl TypeError)
      | _ \<Rightarrow> Inl TypeError)"

definition files :: "GeneratedCode \<Rightarrow> json option \<Rightarrow> error + FileStructure" where
  "files generatedCode spec =
     (case spec_name spec of
        Inl e \<Rightarrow> Inl e
      | Inr nm \<Rightarrow>
          (case reduce_routes [] (apiRoutes generatedCode) of
             Inl e \<Rightarrow> Inl e
           | Inr api_tree \<Rightarrow>
               Inr [(''package.json'', File (package_json nm)),
                    (''types'', Directory [(''index.ts'', File (types generatedCode))]),
                    (''utils'', Directory (utils_directory (utils generatedCode))),
                    (''app'', Directory
                       [(''api'', Directory api_tree),
                        (''page.tsx'', File (page_tsx (components generatedCode) nm))]),
                    (''components'', Directory (components_directory (components generatedCode)))]))"

section \<open>The route handler and its module\<close>

text \<open>
  \<^verbatim>\<open>POST\<close> answers with the file structure (status 200) or, from the \<^verbatim>\<open>catch\<close> branch, with
  a fixed error body (status 500). The model call and \<^verbatim>\<open>JSON.parse\<close> are parameters:
  \<open>create spec\<close> is the content of the first choice's message (\<open>None\<close> when there is none)
  or the error the client throws.
\<close>

datatype response_body = Files FileStructure | ErrorBody string

record response =
  status :: nat
  body :: response_body

definition destructure_spec :: "json \<Rightarrow> error + json option" where
  "destructure_spec b =
     (case b of JNull \<Rightarrow> Inl TypeError | JObject obj \<Rightarrow> Inr (map_of obj ''spec'') | _ \<Rightarrow> Inr None)"

definition validated_code ::
  "(string \<Rightarrow> json option) \<Rightarrow> (json option \<Rightarrow> error + string option) \<Rightarrow> error + json
     \<Rightarrow> error + GeneratedCode \<times> json option" where
  "validated_code JSON_parse create req_json =
     (case req_json of Inl e \<Rightarrow> Inl e | Inr b \<Rightarrow>
      case destructure_spec b of Inl e \<Rightarrow> Inl e | Inr spec \<Rightarrow>
      case create spec of Inl e \<Rightarrow> Inl e | Inr content \<Rightarrow>
      case content of
        None \<Rightarrow> Inl (Error ''Failed to generate code'')
      | Some text \<Rightarrow>
          if text = [] then Inl (Error ''Failed to generate code'')
          else
            case JSON_parse text of None \<Rightarrow> Inl SyntaxError | Some parsedContent \<Rightarrow>
            case GeneratedCodeSchema parsedContent of Inl e \<Rightarrow> Inl e | Inr generatedCode \<Rightarrow>
            Inr (generatedCode, spec))"

definition POST_try ::
  "(string \<Rightarrow> json option) \<Rightarrow> (json option \<Rightarrow> error + string option) \<Rightarrow> error + json
     \<Rightarrow> error + FileStructure" where
  "POST_try JSON_parse create req_json =
     (case validated_code JSON_parse create req_json of
        Inl e \<Rightarrow> Inl e
      | Inr (generatedCode, spec) \<Rightarrow> files generatedCode spec)"

definition POST ::
  "(string \<Rightarrow> json option) \<Rightarrow> (json option \<Rightarrow> error + string option) \<Rightarrow> error + json \<Rightarrow> response" where
  "POST JSON_parse create req_json =
     (case POST_try JSON_parse create req_json of
        Inr fs \<Rightarrow> \<lparr>status = 200, body = Files fs\<rparr>
      | Inl e \<Rightarrow> \<lparr>status = 500, body = ErrorBody ''Failed to generate code. Please try again.''\<rparr>)"

definition error_response :: response where
  "error_response = \<lparr>status = 500, body = ErrorBody ''Failed to generate code. Please try again.''\<rparr>"

text \<open>
  \<^verbatim>\<open>lib/openai.ts\<close> throws at module level when \<^verbatim>\<open>process.env.OPENAI_API_KEY\<close> is falsy
  (unset or empty), and otherwise exports the client. The route module imports it, so its
  \<^verbatim>\<open>POST\<close> exists only when that module has loaded.
\<close>

datatype OpenAI = OpenAI string

definition openai_module :: "(string \<Rightarrow> string option) \<Rightarrow> error + OpenAI" where
  "openai_module process_env =
     (case process_env ''OPENAI_API_KEY'' of
        None \<Rightarrow> Inl (Error ''Missing OPENAI_API_KEY environment variable'')
      | Some apiKey \<Rightarrow>
          if apiKey = [] then Inl (Error ''Missing OPENAI_API_KEY environment variable'')
          else Inr (OpenAI apiKey))"

definition route_module ::
  "(string \<Rightarrow> string option) \<Rightarrow> (string \<Rightarrow> json option) \<Rightarrow> (OpenAI \<Rightarrow> json option \<Rightarrow> error + string option)
     \<Rightarrow> error + (error + json \<Rightarrow> response)" where
  "route_module process_env JSON_parse chat_completions_create =
     (case openai_module process_env of
        Inl e \<Rightarrow> Inl e
      | Inr openai \<Rightarrow> Inr (POST JSON_parse (chat_completions_create openai)))"

section \<open>The repair loop\<close>

text \<open>
  Modelled from the spec: the states of the RepairLoop state machine (section 4.7). The
  controller is Python code that is not among the source files. A state carries what the
  next transition consumes: the raw diagnostics, or the BuildErrorReport.
\<close>

datatype 'report loop_state =
    Verifying
  | Analyzing string
  | Repairing 'report
  | Succeeded
  | Exhausted

text \<open>
  Modelled from the spec: the RepairSession (section 3: attempt counter, action log,
  status) together with the file tree it owns and the last BuildErrorReport.
\<close>

record ('tree, 'report, 'action) RepairSession =
  state :: "'report loop_state"
  tree :: 'tree
  attempt_counter :: nat
  last_report :: "'report option"
  action_log :: "'action list"

text \<open>
  Modelled from the spec: the initial state is Verifying, entered with the freshly
  assembled tree.
\<close>

definition initial_session :: "'tree \<Rightarrow> ('tree, 'report, 'action) RepairSession" where
  "initial_session t =
     \<lparr>state = Verifying, tree = t, attempt_counter = 0, last_report = None, action_log = []\<rparr>"

text \<open>
  Modelled from the spec: the transitions of section 4.7. BuildVerifier, ErrorAnalyzer and
  RepairAgent are parameters (\<open>verify\<close>, \<open>analyze\<close>, \<open>repairStep\<close>). The attempt counter
  increments once per Verifying-to-Repairing cycle, whatever the reports are. The spec
  names no transition for a counter above the bound; it is read as exhausted.
\<close>

definition step ::
  "nat \<Rightarrow> ('tree \<Rightarrow> bool \<times> string) \<Rightarrow> (string \<Rightarrow> 'report) \<Rightarrow> ('report \<Rightarrow> 'tree \<Rightarrow> 'action list \<times> 'tree)
     \<Rightarrow> ('tree, 'report, 'action) RepairSession \<Rightarrow> ('tree, 'report, 'action) RepairSession" where
  "step max_attempts verify analyze repairStep s =
     (case state s of
        Verifying \<Rightarrow>
          (case verify (tree s) of
             (success, rawDiagnostics) \<Rightarrow>
               if success then s\<lparr>state := Succeeded\<rparr>
               else if attempt_counter s < max_attempts then s\<lparr>state := Analyzing rawDiagnostics\<rparr>
               else s\<lparr>state := Exhausted\<rparr>)
      | Analyzing rawDiagnostics \<Rightarrow>
          s\<lparr>state := Repairing (analyze rawDiagnostics), last_report := Some (analyze rawDiagnostics)\<rparr>
      | Repairing report \<Rightarrow>
          (case repairStep report (tree s) of
             (actions, tree') \<Rightarrow>
               s\<lparr>state := Verifying, tree := tree', attempt_counter := attempt_counter s + 1,
                 action_log := action_log s @ actions\<rparr>)
      | Succeeded \<Rightarrow> s
      | Exhausted \<Rightarrow> s)"

definition terminal :: "('tree, 'report, 'action) RepairSession \<Rightarrow> bool" where
  "terminal s = (state s = Succeeded \<or> state s = Exhausted)"

text \<open>
  Modelled from the spec: the loop alternates the transitions until a terminal state. Its
  termination is proved below the definition, with the measure \<open>remaining\<close>.
\<close>

definition remaining :: "nat \<Rightarrow> ('tree, 'report, 'action) RepairSession \<Rightarrow> nat" where
  "remaining max_attempts s =
     (case state s of
        Verifying \<Rightarrow> 3 * (max_attempts - attempt_counter s) + 1
      | Analyzing d \<Rightarrow> 3 * (max_attempts - (attempt_counter s + 1)) + 3
      | Repairing r \<Rightarrow> 3 * (max_attempts - (attempt_counter s + 1)) + 2
      | Succeeded \<Rightarrow> 0
      | Exhausted \<Rightarrow> 0)"

lemma step_remaining:
  "\<not> terminal s \<Longrightarrow> remaining m (step m v a r s) < remaining m s"
  by (cases "state s")
     (auto simp: terminal_def remaining_def step_def split: prod.splits)

function RepairLoop ::
  "nat \<Rightarrow> ('tree \<Rightarrow> bool \<times> string) \<Rightarrow> (string \<Rightarrow> 'report) \<Rightarrow> ('report \<Rightarrow> 'tree \<Rightarrow> 'action list \<times> 'tree)
     \<Rightarrow> ('tree, 'report, 'action) RepairSession \<Rightarrow> ('tree, 'report, 'action) RepairSession" where
  "RepairLoop max_attempts verify analyze repairStep s =
     (if terminal s then s
      else RepairLoop max_attempts verify analyze repairStep (step max_attempts verify analyze repairStep s))"
  by pat_completeness auto
termination
  by (relation "measure (\<lambda>(m, v, a, r, s). remaining m s)") (auto simp: step_remaining)

declare RepairLoop.simps [simp del]

section \<open>Vocabulary of the properties\<close>


definition param_brace :: "string \<Rightarrow> nat \<Rightarrow> bool" where
  "param_brace p i =
     (\<exists>xs w ys. p = xs @ CHR ''{'' # w @ CHR ''}'' # ys \<and> w \<noteq> [] \<and> (\<forall>c \<in> set w. word_char c) \<and>
        (i = length xs \<or> i = length xs + length w + 1))"








text \<open>
  Three routes used as examples.
\<close>

definition tasks_route :: GeneratedApiRoute where
  "tasks_route = \<lparr>path = ''/api/tasks'',
     methods = [(''GET'', \<lparr>ApiMethod.code = ''return list()'', ApiMethod.description = ''all tasks''\<rparr>)]\<rparr>"

definition task_route :: GeneratedApiRoute where
  "task_route = \<lparr>path = ''/api/tasks/{taskId}'',
     methods = [(''GET'', \<lparr>ApiMethod.code = ''return one()'', ApiMethod.description = ''one task''\<rparr>),
                (''DELETE'', \<lparr>ApiMethod.code = ''return drop()'', ApiMethod.description = ''delete''\<rparr>)]\<rparr>"

definition users_route :: GeneratedApiRoute where
  "users_route = \<lparr>path = ''/api/users'',
     methods = [(''POST'', \<lparr>ApiMethod.code = ''return add()'', ApiMethod.description = ''new user''\<rparr>)]\<rparr>"

text \<open>
  Invariants of the repair loop: the attempt counter stays within the bound, and under a
  verifier that always fails the loop has not succeeded and is exhausted only with the
  counter at the bound.
\<close>

definition within_budget :: "nat \<Rightarrow> ('tree, 'report, 'action) RepairSession \<Rightarrow> bool" where
  "within_budget m s =
     (case state s of
        Analyzing d \<Rightarrow> attempt_counter s < m
      | Repairing r \<Rightarrow> attempt_counter s < m
      | _ \<Rightarrow> attempt_counter s \<le> m)"

definition unexhausted :: "nat \<Rightarrow> ('tree, 'report, 'action) RepairSession \<Rightarrow> bool" where
  "unexhausted m s = (state s \<noteq> Succeeded \<and> (state s = Exhausted \<longrightarrow> attempt_counter s = m))"

chapter \<open>Properties\<close>

section \<open>The path rewrite\<close>

lemma word_char_not_brace [simp]:
  "\<not> word_char CHR ''{''" "\<not> word_char CHR ''}''" "\<not> word_char CHR ''[''" "\<not> word_char CHR '']''"
  by (simp_all add: word_char_def)

lemma match_param_Some_iff:
  "match_param s = Some (w, rest) \<longleftrightarrow>
     s = CHR ''{'' # w @ CHR ''}'' # rest \<and> w \<noteq> [] \<and> (\<forall>c \<in> set w. word_char c)"
proof
  assume a: "match_param s = Some (w, rest)"
  then obtain cs where s: "s = CHR ''{'' # cs"
    and d: "dropWhile word_char cs = CHR ''}'' # rest"
    and w: "takeWhile word_char cs = w" "w \<noteq> []"
    by (auto simp: match_param_def split: list.splits if_splits)
  have "cs = takeWhile word_char cs @ dropWhile word_char cs" by simp
  with d w have "cs = w @ CHR ''}'' # rest" by simp
  moreover have "\<forall>c \<in> set w. word_char c"
    using w(1) by (metis set_takeWhileD)
  ultimately show "s = CHR ''{'' # w @ CHR ''}'' # rest \<and> w \<noteq> [] \<and> (\<forall>c \<in> set w. word_char c)"
    using s w by simp
next
  assume a: "s = CHR ''{'' # w @ CHR ''}'' # rest \<and> w \<noteq> [] \<and> (\<forall>c \<in> set w. word_char c)"
  then have t: "takeWhile word_char (w @ CHR ''}'' # rest) = w"
    and d: "dropWhile word_char (w @ CHR ''}'' # rest) = CHR ''}'' # rest"
    by simp_all
  from a t d show "match_param s = Some (w, rest)"
    by (simp add: match_param_def)
qed

lemma match_param_not_brace: "c \<noteq> CHR ''{'' \<Longrightarrow> match_param (c # cs) = None"
  by (simp add: match_param_def)

lemma sanitize_no_open:
  "CHR ''{'' \<notin> set xs \<Longrightarrow> sanitizeRoutePath (xs @ ys) = xs @ sanitizeRoutePath ys"
  by (induction xs) (auto simp: match_param_not_brace)

lemma sanitize_length: "length (sanitizeRoutePath p) = length p"
proof (induction p rule: sanitizeRoutePath.induct)
  case 1
  show ?case by simp
next
  case (2 c cs)
  show ?case
  proof (cases "match_param (c # cs)")
    case None
    with 2 show ?thesis by simp
  next
    case (Some a)
    obtain w rest where a: "a = (w, rest)" by (cases a)
    with Some have "c # cs = CHR ''{'' # w @ CHR ''}'' # rest"
      by (simp add: match_param_Some_iff)
    with 2(2)[OF Some a[symmetric]] Some a show ?thesis by simp
  qed
qed

lemma match_param_append_open:
  "match_param (c # cs @ CHR ''{'' # zs) =
     map_option (\<lambda>(w, rest). (w, rest @ CHR ''{'' # zs)) (match_param (c # cs))"
proof (cases "\<forall>x \<in> set cs. word_char x")
  case True
  then have e: "takeWhile word_char (cs @ CHR ''{'' # zs) = cs"
    "dropWhile word_char (cs @ CHR ''{'' # zs) = CHR ''{'' # zs"
    "dropWhile word_char cs = []"
    by simp_all
  show ?thesis by (simp add: match_param_def e)
next
  case False
  then obtain x where "x \<in> set cs" "\<not> word_char x" by blast
  then have "takeWhile word_char (cs @ CHR ''{'' # zs) = takeWhile word_char cs"
    "dropWhile word_char (cs @ CHR ''{'' # zs) = dropWhile word_char cs @ CHR ''{'' # zs"
    by (simp_all add: takeWhile_append1 dropWhile_append1)
  then show ?thesis
    by (auto simp: match_param_def split: list.splits)
qed

lemma sanitize_append_open:
  "sanitizeRoutePath (xs @ CHR ''{'' # zs) = sanitizeRoutePath xs @ sanitizeRoutePath (CHR ''{'' # zs)"
proof (induction xs rule: sanitizeRoutePath.induct)
  case 1
  show ?case by simp
next
  case (2 c cs)
  show ?case
  proof (cases "match_param (c # cs)")
    case None
    then have "match_param (c # cs @ CHR ''{'' # zs) = None"
      by (simp add: match_param_append_open)
    with None 2(1) show ?thesis by simp
  next
    case (Some a)
    obtain w rest where a: "a = (w, rest)" by (cases a)
    with Some have "match_param (c # cs @ CHR ''{'' # zs) = Some (w, rest @ CHR ''{'' # zs)"
      by (simp add: match_param_append_open)
    with 2(2)[OF Some a[symmetric]] Some a show ?thesis by simp
  qed
qed





lemma sanitize_word_prefix:
  "\<forall>c \<in> set w. word_char c \<Longrightarrow> sanitizeRoutePath (w @ r) = w @ sanitizeRoutePath r"
  by (rule sanitize_no_open) auto

lemma match_param_sanitize_tail:
  "match_param (c # sanitizeRoutePath cs) =
     map_option (\<lambda>(w, r). (w, sanitizeRoutePath r)) (match_param (c # cs))"
proof -
  define w where "w = takeWhile word_char cs"
  define r where "r = dropWhile word_char cs"
  have cs: "cs = w @ r" by (simp add: w_def r_def)
  have ww: "\<forall>c \<in> set w. word_char c" unfolding w_def by (metis set_takeWhileD)
  have s: "sanitizeRoutePath cs = w @ sanitizeRoutePath r"
    unfolding cs using ww by (rule sanitize_word_prefix)
  show ?thesis
  proof (cases r)
    case Nil
    with s have s': "sanitizeRoutePath cs = w" by simp
    have e: "dropWhile word_char w = []" "dropWhile word_char cs = []"
      using ww Nil r_def by simp_all
    show ?thesis by (simp add: match_param_def s' e)
  next
    case (Cons d ds)
    have nd: "\<not> word_char d"
      using Cons r_def by (metis hd_dropWhile list.sel(1) list.distinct(1))
    have orig: "takeWhile word_char cs = w" "dropWhile word_char cs = d # ds"
      using w_def r_def Cons by simp_all
    show ?thesis
    proof (cases "match_param (d # ds)")
      case None
      then have e1: "sanitizeRoutePath cs = w @ d # sanitizeRoutePath ds"
        using s Cons by simp
      have e2: "takeWhile word_char (w @ d # sanitizeRoutePath ds) = w"
        "dropWhile word_char (w @ d # sanitizeRoutePath ds) = d # sanitizeRoutePath ds"
        using ww nd by simp_all
      show ?thesis using ww by (simp add: match_param_def e1 e2 orig)
    next
      case (Some a)
      obtain v rest where a: "a = (v, rest)" by (cases a)
      with Some have d: "d = CHR ''{''" by (simp add: match_param_Some_iff)
      from Some a have e1: "sanitizeRoutePath cs = w @ CHR ''['' # v @ CHR '']'' # sanitizeRoutePath rest"
        using s Cons by simp
      have e2: "takeWhile word_char (w @ CHR ''['' # v @ CHR '']'' # sanitizeRoutePath rest) = w"
        "dropWhile word_char (w @ CHR ''['' # v @ CHR '']'' # sanitizeRoutePath rest)
           = CHR ''['' # v @ CHR '']'' # sanitizeRoutePath rest"
        using ww by simp_all
      show ?thesis by (simp add: match_param_def e1 e2 orig d)
    qed
  qed
qed

lemma sanitize_idem: "sanitizeRoutePath (sanitizeRoutePath p) = sanitizeRoutePath p"
proof (induction p rule: sanitizeRoutePath.induct)
  case 1
  show ?case by simp
next
  case (2 c cs)
  show ?case
  proof (cases "match_param (c # cs)")
    case None
    then have "match_param (c # sanitizeRoutePath cs) = None"
      by (simp add: match_param_sanitize_tail)
    with None 2(1) show ?thesis by simp
  next
    case (Some a)
    obtain w rest where a: "a = (w, rest)" by (cases a)
    with Some have ww: "\<forall>c \<in> set w. word_char c" by (simp add: match_param_Some_iff)
    then have "CHR ''{'' \<notin> set (CHR ''['' # w @ [CHR '']''])" by auto
    then have "sanitizeRoutePath ((CHR ''['' # w @ [CHR '']'']) @ sanitizeRoutePath rest)
        = (CHR ''['' # w @ [CHR '']'']) @ sanitizeRoutePath (sanitizeRoutePath rest)"
      by (rule sanitize_no_open)
    with 2(2)[OF Some a[symmetric]] Some a show ?thesis by simp
  qed
qed

lemma param_brace_Cons: "param_brace cs i \<Longrightarrow> param_brace (c # cs) (Suc i)"
proof -
  assume "param_brace cs i"
  then obtain xs w ys where h: "cs = xs @ CHR ''{'' # w @ CHR ''}'' # ys" "w \<noteq> []"
    "\<forall>c \<in> set w. word_char c" "i = length xs \<or> i = length xs + length w + 1"
    unfolding param_brace_def by blast
  then have "c # cs = (c # xs) @ CHR ''{'' # w @ CHR ''}'' # ys \<and> w \<noteq> [] \<and> (\<forall>c \<in> set w. word_char c)
      \<and> (Suc i = length (c # xs) \<or> Suc i = length (c # xs) + length w + 1)"
    by auto
  then show ?thesis unfolding param_brace_def by blast
qed

lemma param_brace_append: "param_brace cs i \<Longrightarrow> param_brace (zs @ cs) (length zs + i)"
proof (induction zs)
  case Nil
  then show ?case by simp
next
  case (Cons z zs)
  then show ?case using param_brace_Cons[of "zs @ cs" "length zs + i" z] by simp
qed

lemma sanitize_frame:
  "i < length p \<Longrightarrow> sanitizeRoutePath p ! i \<noteq> p ! i \<Longrightarrow> param_brace p i"
proof (induction p arbitrary: i rule: sanitizeRoutePath.induct)
  case 1
  then show ?case by simp
next
  case (2 c cs)
  show ?case
  proof (cases "match_param (c # cs)")
    case None
    with 2(4) have ne: "(c # sanitizeRoutePath cs) ! i \<noteq> (c # cs) ! i" by simp
    then obtain j where j: "i = Suc j" by (cases i) auto
    with ne 2(3) have "j < length cs" "sanitizeRoutePath cs ! j \<noteq> cs ! j" by simp_all
    then have "param_brace cs j" using 2(1)[OF None] by blast
    then show ?thesis using j param_brace_Cons by blast
  next
    case (Some a)
    obtain w rest where a: "a = (w, rest)" by (cases a)
    with Some have m: "c # cs = CHR ''{'' # w @ CHR ''}'' # rest" "w \<noteq> []" "\<forall>c \<in> set w. word_char c"
      by (simp_all add: match_param_Some_iff)
    have dec: "c # cs = [] @ CHR ''{'' # w @ CHR ''}'' # rest \<and> w \<noteq> [] \<and> (\<forall>c \<in> set w. word_char c)"
      using m by simp
    have "param_brace (c # cs) 0"
      unfolding param_brace_def
      by (rule exI[of _ "[]"], rule exI[of _ w], rule exI[of _ rest]) (use dec in simp)
    moreover have "param_brace (c # cs) (length w + 1)"
      unfolding param_brace_def
      by (rule exI[of _ "[]"], rule exI[of _ w], rule exI[of _ rest]) (use dec in simp)
    ultimately have here: "param_brace (c # cs) 0" "param_brace (c # cs) (length w + 1)" by blast+
    have out: "sanitizeRoutePath (c # cs) = (CHR ''['' # w @ [CHR '']'']) @ sanitizeRoutePath rest"
      using Some a by simp
    have inp: "c # cs = (CHR ''{'' # w @ [CHR ''}'']) @ rest" using m by simp
    consider "i = 0" | "1 \<le> i \<and> i \<le> length w" | "i = length w + 1" | "length w + 2 \<le> i" by linarith
    then show ?thesis
    proof cases
      case 1
      with here show ?thesis by simp
    next
      case 2
      have "sanitizeRoutePath (c # cs) ! i = w ! (i - 1)"
        unfolding out using 2 by (auto simp: nth_append nth_Cons')
      moreover have "(c # cs) ! i = w ! (i - 1)"
        unfolding inp using 2 by (auto simp: nth_append nth_Cons')
      ultimately show ?thesis using \<open>sanitizeRoutePath (c # cs) ! i \<noteq> (c # cs) ! i\<close> by simp
    next
      case 3
      with here show ?thesis by simp
    next
      case 4
      define j where "j = i - (length w + 2)"
      have i: "i = length (CHR ''{'' # w @ [CHR ''}'']) + j" using 4 j_def by simp
      have "sanitizeRoutePath (c # cs) ! i = sanitizeRoutePath rest ! j"
        unfolding out using i by (simp add: nth_append)
      moreover have "(c # cs) ! i = rest ! j"
        unfolding inp using i by (simp add: nth_append)
      moreover have "j < length rest" using 2(3) i inp by (metis length_append nat_add_left_cancel_less)
      ultimately have "param_brace rest j"
        using 2(2)[OF Some a[symmetric]] \<open>sanitizeRoutePath (c # cs) ! i \<noteq> (c # cs) ! i\<close> by simp
      then have "param_brace ((CHR ''{'' # w @ [CHR ''}'']) @ rest) (length (CHR ''{'' # w @ [CHR ''}'']) + j)"
        by (rule param_brace_append)
      then show ?thesis using i inp by simp
    qed
  qed
qed

lemma param_brace_char: "param_brace p i \<Longrightarrow> p ! i = CHR ''{'' \<or> p ! i = CHR ''}''"
  by (auto simp: param_brace_def nth_append)

lemma sanitize_param_segment:
  assumes "w \<noteq> []" "\<forall>c \<in> set w. word_char c"
  shows "sanitizeRoutePath (xs @ CHR ''{'' # w @ CHR ''}'' # ys)
           = sanitizeRoutePath xs @ CHR ''['' # w @ CHR '']'' # sanitizeRoutePath ys"
proof -
  have "match_param (CHR ''{'' # w @ CHR ''}'' # ys) = Some (w, ys)"
    using assms by (simp add: match_param_Some_iff)
  then have "sanitizeRoutePath (CHR ''{'' # w @ CHR ''}'' # ys) = CHR ''['' # w @ CHR '']'' # sanitizeRoutePath ys"
    by simp
  then show ?thesis by (simp add: sanitize_append_open)
qed

lemma match_param_other_segment:
  assumes "CHR ''}'' \<notin> set w" "w = [] \<or> (\<exists>c \<in> set w. \<not> word_char c)"
  shows "match_param (CHR ''{'' # w @ CHR ''}'' # ys) = None"
proof (cases "w = []")
  case True
  then show ?thesis by (simp add: match_param_def)
next
  case False
  with assms(2) obtain x where x: "x \<in> set w" "\<not> word_char x" by blast
  then have t: "takeWhile word_char (w @ CHR ''}'' # ys) = takeWhile word_char w"
    and d: "dropWhile word_char (w @ CHR ''}'' # ys) = dropWhile word_char w @ CHR ''}'' # ys"
    by (simp_all add: takeWhile_append1 dropWhile_append1)
  have ne: "dropWhile word_char w \<noteq> []" using x by (auto simp: dropWhile_eq_Nil_conv)
  then obtain e es where e: "dropWhile word_char w = e # es" by (cases "dropWhile word_char w") auto
  then have "e \<in> set w" by (metis list.set_intros(1) set_dropWhileD)
  with assms(1) have "e \<noteq> CHR ''}''" by auto
  with t d e show ?thesis by (simp add: match_param_def)
qed

lemma sanitize_other_segment:
  assumes "CHR ''{'' \<notin> set w" "CHR ''}'' \<notin> set w" "w = [] \<or> (\<exists>c \<in> set w. \<not> word_char c)"
  shows "sanitizeRoutePath (xs @ CHR ''{'' # w @ CHR ''}'' # ys)
           = sanitizeRoutePath xs @ CHR ''{'' # w @ CHR ''}'' # sanitizeRoutePath ys"
proof -
  have "sanitizeRoutePath (CHR ''{'' # w @ CHR ''}'' # ys) = CHR ''{'' # sanitizeRoutePath (w @ CHR ''}'' # ys)"
    using match_param_other_segment[OF assms(2,3)] by simp
  also have "sanitizeRoutePath (w @ CHR ''}'' # ys) = w @ sanitizeRoutePath (CHR ''}'' # ys)"
    using assms(1) by (rule sanitize_no_open)
  also have "sanitizeRoutePath (CHR ''}'' # ys) = CHR ''}'' # sanitizeRoutePath ys"
    by (simp add: match_param_not_brace)
  finally show ?thesis by (simp add: sanitize_append_open)
qed

text \<open>
  C1. The rewrite is idempotent, and it preserves the frame: the result has the length of
  the path, and every character that is not a brace of a parameter segment (so every
  character outside the segments, and the names inside them) stays where it is, unchanged.
\<close>

theorem sanitizeRoutePath_idempotent_frame:
  "sanitizeRoutePath (sanitizeRoutePath p) = sanitizeRoutePath p \<and>
   length (sanitizeRoutePath p) = length p \<and>
   (\<forall>i < length p. \<not> param_brace p i \<longrightarrow> sanitizeRoutePath p ! i = p ! i)"
  using sanitize_idem sanitize_length sanitize_frame by blast

theorem sanitizeRoutePath_idempotent_frame_witness:
  "sanitizeRoutePath (sanitizeRoutePath ''tasks/{taskId}'') = sanitizeRoutePath ''tasks/{taskId}'' \<and>
   \<not> param_brace ''tasks/{taskId}'' 8 \<and>
   sanitizeRoutePath ''tasks/{taskId}'' ! 8 = CHR ''a''"
proof -
  have n: "\<not> param_brace ''tasks/{taskId}'' 8"
    using param_brace_char[of "''tasks/{taskId}''" 8] by auto
  have l: "(8::nat) < length ''tasks/{taskId}''" by simp
  from sanitizeRoutePath_idempotent_frame[of "''tasks/{taskId}''"] n l
  have "sanitizeRoutePath ''tasks/{taskId}'' ! 8 = ''tasks/{taskId}'' ! 8" by blast
  with sanitizeRoutePath_idempotent_frame[of "''tasks/{taskId}''"] n show ?thesis by simp
qed



text \<open>
  C9. Every brace segment whose name is a non-empty run of word characters is converted,
  wherever it stands in the path (the text before and after it is rewritten on its own);
  a brace segment whose name is empty or holds a character that is not a word character
  (and no brace) is left as written, braces included.
\<close>

theorem sanitizeRoutePath_word_segments:
  "(w \<noteq> [] \<and> (\<forall>c \<in> set w. word_char c) \<longrightarrow>
      sanitizeRoutePath (xs @ CHR ''{'' # w @ CHR ''}'' # ys)
        = sanitizeRoutePath xs @ CHR ''['' # w @ CHR '']'' # sanitizeRoutePath ys) \<and>
   (CHR ''{'' \<notin> set w \<and> CHR ''}'' \<notin> set w \<and> (w = [] \<or> (\<exists>c \<in> set w. \<not> word_char c)) \<longrightarrow>
      sanitizeRoutePath (xs @ CHR ''{'' # w @ CHR ''}'' # ys)
        = sanitizeRoutePath xs @ CHR ''{'' # w @ CHR ''}'' # sanitizeRoutePath ys)"
  using sanitize_param_segment sanitize_other_segment by blast

theorem sanitizeRoutePath_word_segments_witness:
  "sanitizeRoutePath (''a/'' @ CHR ''{'' # ''id'' @ CHR ''}'' # ''/b'') = ''a/[id]/b'' \<and>
   sanitizeRoutePath (''a/'' @ CHR ''{'' # ''task-id'' @ CHR ''}'' # ''/b'') = ''a/{task-id}/b''"
proof -
  have w1: "''id'' \<noteq> [] \<and> (\<forall>c \<in> set ''id''. word_char c)" by (simp add: word_char_def)
  have w2: "CHR ''{'' \<notin> set ''task-id'' \<and> CHR ''}'' \<notin> set ''task-id'' \<and>
     (''task-id'' = [] \<or> (\<exists>c \<in> set ''task-id''. \<not> word_char c))" by (simp add: word_char_def)
  have s: "sanitizeRoutePath ''a/'' = ''a/''" "sanitizeRoutePath ''/b'' = ''/b''"
    by (simp_all add: match_param_def)
  from sanitizeRoutePath_word_segments[of "''id''" "''a/''" "''/b''"] w1 sanitizeRoutePath_word_segments[of "''task-id''" "''a/''" "''/b''"] w2 s
  show ?thesis by simp
qed

section \<open>Schema validation is structural\<close>









section \<open>The assembled tree\<close>


lemma join_empty_iff: "sep \<noteq> [] \<Longrightarrow> join sep xs = [] \<longleftrightarrow> xs = [] \<or> xs = [[]]"
  by (induction sep xs rule: join.induct) auto

lemma handler_nonempty: "handler p \<noteq> []"
  by (cases p) (simp add: handler_def)

lemma routeMethods_empty_iff: "routeMethods route = [] \<longleftrightarrow> methods route = []"
proof -
  have "map handler (methods route) \<noteq> [[]]"
  proof
    assume "map handler (methods route) = [[]]"
    then obtain p where "handler p = []" by (cases "methods route") auto
    then show False using handler_nonempty by blast
  qed
  then show ?thesis by (simp add: routeMethods_def join_empty_iff)
qed

lemma add_route_no_methods: "methods route = [] \<Longrightarrow> add_route acc route = Inr acc"
  by (simp add: add_route_def routeMethods_empty_iff)

lemma reduce_routes_append:
  "reduce_routes acc (xs @ ys) =
     (case reduce_routes acc xs of Inl e \<Rightarrow> Inl e | Inr acc' \<Rightarrow> reduce_routes acc' ys)"
  by (induction xs arbitrary: acc) (auto split: sum.splits)

lemma reduce_routes_skip:
  assumes "methods route = []"
  shows "reduce_routes acc (before @ route # after) = reduce_routes acc (before @ after)"
  using assms by (simp add: reduce_routes_append add_route_no_methods split: sum.splits)







lemma example_pathParts:
  "pathParts tasks_route = [''tasks'']"
  "pathParts task_route = [''tasks'', ''[taskId]'']"
  "pathParts users_route = [''users'']"
  by (simp_all add: pathParts_def routePath_def tasks_route_def task_route_def users_route_def
      match_param_def word_char_def)




text \<open>
  A later route whose path parts are a prefix replaces the directory: assembled after
  \<^verbatim>\<open>/api/tasks/{taskId}\<close>, the route \<^verbatim>\<open>/api/tasks\<close> leaves only its own handler in the tree.
\<close>

lemma later_parent_route_replaces_nested:
  "reduce_routes [] [task_route, tasks_route]
     = Inr [(''tasks'', Directory [(''route.ts'', File (route_ts tasks_route))])]"
proof -
  have nonempty: "routeMethods tasks_route \<noteq> []" "routeMethods task_route \<noteq> []"
    by (simp_all add: routeMethods_empty_iff) (simp_all add: tasks_route_def task_route_def)
  show ?thesis by (simp add: add_route_def nonempty example_pathParts)
qed

text \<open>
  C10. A route with an empty method map leaves the accumulator as it is: the API
  directory, and with it the whole file structure, is the one assembled without that route.
\<close>

theorem route_without_methods_omitted:
  "methods route = [] \<longrightarrow>
     add_route acc route = Inr acc \<and>
     reduce_routes acc (before @ route # after) = reduce_routes acc (before @ after) \<and>
     files (generatedCode\<lparr>apiRoutes := before @ route # after\<rparr>) spec
       = files (generatedCode\<lparr>apiRoutes := before @ after\<rparr>) spec"
  by (simp add: add_route_no_methods reduce_routes_skip files_def split: sum.splits)

theorem route_without_methods_omitted_witness:
  "reduce_routes [] [tasks_route, \<lparr>path = ''/api/ghost/{id}'', methods = []\<rparr>, users_route]
     = reduce_routes [] [tasks_route, users_route]"
  using route_without_methods_omitted[of "\<lparr>path = ''/api/ghost/{id}'', methods = []\<rparr>" "[]" "[tasks_route]" "[users_route]"]
  by simp



section \<open>The handler fails closed\<close>

text \<open>
  C5. When the parsed content of the model's reply does not conform to
  \<^verbatim>\<open>GeneratedCodeSchema\<close>, the handler answers with the error response. In every case the
  response is either that error, or status 200 with the whole file structure (all five
  top-level entries) assembled from generated code that passed the schema.
\<close>

theorem POST_fails_closed:
  "(req_json = Inr b \<and> destructure_spec b = Inr spec \<and> create spec = Inr (Some text) \<and>
    JSON_parse text = Some parsedContent \<and> GeneratedCodeSchema parsedContent = Inl e
    \<longrightarrow> POST JSON_parse create req_json = error_response) \<and>
   (POST JSON_parse create req_json = error_response \<or>
    (\<exists>generatedCode spec fs.
       validated_code JSON_parse create req_json = Inr (generatedCode, spec) \<and>
       files generatedCode spec = Inr fs \<and>
       map fst fs = [''package.json'', ''types'', ''utils'', ''app'', ''components''] \<and>
       POST JSON_parse create req_json = \<lparr>status = 200, body = Files fs\<rparr>))"
proof -
  have 1: "POST JSON_parse create req_json = error_response"
    if "req_json = Inr b" "destructure_spec b = Inr spec" "create spec = Inr (Some text)"
      "JSON_parse text = Some parsedContent" "GeneratedCodeSchema parsedContent = Inl e"
    using that by (simp add: POST_def POST_try_def validated_code_def error_response_def)
  have 2: "POST JSON_parse create req_json = error_response \<or>
    (\<exists>generatedCode spec fs.
       validated_code JSON_parse create req_json = Inr (generatedCode, spec) \<and>
       files generatedCode spec = Inr fs \<and>
       map fst fs = [''package.json'', ''types'', ''utils'', ''app'', ''components''] \<and>
       POST JSON_parse create req_json = \<lparr>status = 200, body = Files fs\<rparr>)"
  proof (cases "validated_code JSON_parse create req_json")
    case (Inl e)
    then show ?thesis by (simp add: POST_def POST_try_def error_response_def)
  next
    case (Inr p)
    obtain g s where p: "p = (g, s)" by (cases p)
    show ?thesis
    proof (cases "files g s")
      case (Inl e)
      with Inr p show ?thesis by (simp add: POST_def POST_try_def error_response_def)
    next
      case fs: (Inr fs)
      then have "map fst fs = [''package.json'', ''types'', ''utils'', ''app'', ''components'']"
        by (auto simp: files_def split: sum.splits)
      with Inr p fs show ?thesis by (simp add: POST_def POST_try_def)
    qed
  qed
  from 1 2 show ?thesis by blast
qed

theorem POST_fails_closed_witness:
  "POST (\<lambda>text. Some (JObject [(''components'', JArray []), (''apiRoutes'', JArray []),
                               (''types'', JNumber 3), (''utils'', JArray [])]))
        (\<lambda>spec. Inr (Some ''{...}''))
        (Inr (JObject [(''spec'', JObject [(''name'', JString ''Todo App'')])]))
     = error_response"
proof -
  let ?parsed = "JObject [(''components'', JArray []), (''apiRoutes'', JArray []),
                               (''types'', JNumber 3), (''utils'', JArray [])]"
  have "GeneratedCodeSchema ?parsed = Inl ZodError"
    by (simp add: GeneratedCodeSchema_def z_field_def z_array_def z_string_def)
  moreover have "destructure_spec (JObject [(''spec'', JObject [(''name'', JString ''Todo App'')])])
      = Inr (Some (JObject [(''name'', JString ''Todo App'')]))"
    by (simp add: destructure_spec_def)
  ultimately show ?thesis
    using POST_fails_closed[of "Inr (JObject [(''spec'', JObject [(''name'', JString ''Todo App'')])])"
        "JObject [(''spec'', JObject [(''name'', JString ''Todo App'')])]"
        "Some (JObject [(''name'', JString ''Todo App'')])"
        "\<lambda>spec. Inr (Some ''{...}'')" "''{...}''" "\<lambda>text. Some ?parsed" ?parsed ZodError]
    by simp
qed

text \<open>
  C8. With \<^verbatim>\<open>OPENAI_API_KEY\<close> unset the module of the client fails to load with the
  configuration error, and so does the route module that imports it: there is no handler,
  whatever the parser and the model call would do.
\<close>

theorem missing_api_key_fails_at_load:
  "process_env ''OPENAI_API_KEY'' = None \<longrightarrow>
     openai_module process_env = Inl (Error ''Missing OPENAI_API_KEY environment variable'') \<and>
     route_module process_env JSON_parse chat_completions_create
       = Inl (Error ''Missing OPENAI_API_KEY environment variable'')"
  by (simp add: openai_module_def route_module_def)

theorem missing_api_key_fails_at_load_witness:
  "route_module (Map.empty(''NODE_ENV'' \<mapsto> ''production'')) (\<lambda>text. None) (\<lambda>openai spec. Inr (Some ''{}''))
     = Inl (Error ''Missing OPENAI_API_KEY environment variable'')"
  using missing_api_key_fails_at_load[of "Map.empty(''NODE_ENV'' \<mapsto> ''production'')" "\<lambda>text. None"
      "\<lambda>openai spec. Inr (Some ''{}'')"]
  by simp

section \<open>The repair loop terminates\<close>

lemma step_within_budget: "within_budget m s \<Longrightarrow> within_budget m (step m v a r s)"
  by (cases "state s") (auto simp: within_budget_def step_def split: prod.splits)

lemma RepairLoop_terminal: "terminal (RepairLoop m v a r s)"
proof (induction m v a r s rule: RepairLoop.induct)
  case (1 m v a r s)
  then show ?case by (subst RepairLoop.simps) simp
qed

lemma RepairLoop_within_budget: "within_budget m s \<Longrightarrow> within_budget m (RepairLoop m v a r s)"
proof (induction m v a r s rule: RepairLoop.induct)
  case (1 m v a r s)
  then show ?case by (subst RepairLoop.simps) (simp add: step_within_budget)
qed

lemma RepairLoop_steps:
  "\<exists>n \<le> remaining m s. RepairLoop m v a r s = ((step m v a r) ^^ n) s"
proof (induction m v a r s rule: RepairLoop.induct)
  case (1 m v a r s)
  show ?case
  proof (cases "terminal s")
    case True
    then have "RepairLoop m v a r s = ((step m v a r) ^^ 0) s" by (subst RepairLoop.simps) simp
    then show ?thesis by blast
  next
    case False
    with 1 obtain n where n: "n \<le> remaining m (step m v a r s)"
      and e: "RepairLoop m v a r (step m v a r s) = ((step m v a r) ^^ n) (step m v a r s)" by blast
    from False have "RepairLoop m v a r s = RepairLoop m v a r (step m v a r s)"
      by (subst RepairLoop.simps) simp
    with e have "RepairLoop m v a r s = ((step m v a r) ^^ Suc n) s" by (simp add: funpow_swap1)
    moreover have "Suc n \<le> remaining m s" using n step_remaining[OF False, of m v a r] by simp
    ultimately show ?thesis by blast
  qed
qed

lemma step_failing:
  assumes "\<forall>t. \<not> fst (v t)" "within_budget m s" "unexhausted m s"
  shows "unexhausted m (step m v a r s)"
proof -
  obtain d where "v (tree s) = (False, d)"
    using assms(1) by (cases "v (tree s)") (metis fst_conv)
  with assms(2,3) show ?thesis
    by (cases "state s") (auto simp: within_budget_def unexhausted_def step_def split: prod.splits)
qed

lemma RepairLoop_failing:
  "\<forall>t. \<not> fst (v t) \<Longrightarrow> within_budget m s \<Longrightarrow> unexhausted m s \<Longrightarrow> unexhausted m (RepairLoop m v a r s)"
proof (induction m v a r s rule: RepairLoop.induct)
  case (1 m v a r s)
  then show ?case
    by (subst RepairLoop.simps) (simp add: step_within_budget step_failing)
qed

text \<open>
  C7. For every verifier, analyzer and repair agent, and every bound \<open>m\<close>, the loop started
  on a freshly assembled tree ends in Succeeded or Exhausted, after at most \<open>m\<close> cycles
  (the attempt counter) and at most \<open>3 * m + 1\<close> transitions. When every verification
  fails with the same diagnostics it ends in Exhausted with the counter at \<open>m\<close>.
\<close>

theorem RepairLoop_terminates:
  "terminal (RepairLoop m v a r (initial_session t)) \<and>
   attempt_counter (RepairLoop m v a r (initial_session t)) \<le> m \<and>
   (\<exists>n \<le> 3 * m + 1. RepairLoop m v a r (initial_session t) = ((step m v a r) ^^ n) (initial_session t)) \<and>
   ((\<forall>t. v t = (False, d)) \<longrightarrow>
      state (RepairLoop m v a r (initial_session t)) = Exhausted \<and>
      attempt_counter (RepairLoop m v a r (initial_session t)) = m)"
proof -
  let ?s0 = "initial_session t :: ('a, 'b, 'c) RepairSession"
  let ?end = "RepairLoop m v a r ?s0"
  have wb0: "within_budget m ?s0" by (simp add: within_budget_def initial_session_def)
  have t: "terminal ?end" by (rule RepairLoop_terminal)
  have wb: "within_budget m ?end" using wb0 by (rule RepairLoop_within_budget)
  then have le: "attempt_counter ?end \<le> m"
    by (cases "state ?end") (auto simp: within_budget_def)
  have "remaining m ?s0 = 3 * m + 1" by (simp add: remaining_def initial_session_def)
  then have steps: "\<exists>n \<le> 3 * m + 1. ?end = ((step m v a r) ^^ n) ?s0"
    using RepairLoop_steps[of m ?s0 v a r] by simp
  have fail: "state ?end = Exhausted \<and> attempt_counter ?end = m" if f: "\<forall>t. v t = (False, d)"
  proof -
    from f have "\<forall>t. \<not> fst (v t)" by simp
    moreover have "unexhausted m ?s0" by (simp add: unexhausted_def initial_session_def)
    ultimately have "unexhausted m ?end" using wb0 RepairLoop_failing by blast
    with t show ?thesis by (auto simp: unexhausted_def terminal_def)
  qed
  from t le steps fail show ?thesis by blast
qed

theorem RepairLoop_terminates_witness:
  "state (RepairLoop 3 (\<lambda>t::unit. (False, ''Cannot find module'')) (\<lambda>d. d) (\<lambda>r t. ([r], t))
            (initial_session ())) = Exhausted \<and>
   attempt_counter (RepairLoop 3 (\<lambda>t::unit. (False, ''Cannot find module'')) (\<lambda>d. d) (\<lambda>r t. ([r], t))
            (initial_session ())) = 3"
  using RepairLoop_terminates[of 3 "\<lambda>t::unit. (False, ''Cannot find module'')" "\<lambda>d. d" "\<lambda>r t. ([r], t)" "()"
      "''Cannot find module''"]
  by simp

text \<open>
  Scenario C: with a bound of 3 and a verifier that always fails, the session ends
  exhausted after three cycles, with three logged actions and the last report kept.
\<close>

lemma RepairLoop_scenario_C:
  "RepairLoop 3 (\<lambda>t::unit. (False, ''Cannot find module'')) (\<lambda>d. d) (\<lambda>r t. ([r], t)) (initial_session ())
     = \<lparr>state = Exhausted, tree = (), attempt_counter = 3, last_report = Some ''Cannot find module'',
        action_log = [''Cannot find module'', ''Cannot find module'', ''Cannot find module'']\<rparr>"
  by (simp add: RepairLoop.simps step_def terminal_def initial_session_def)

end
